theory Spec2Isabelle
  imports Main "HOL-Library.Word" "HOL-Library.Sublist"
begin

section \<open>The Cadence testing framework: the \<open>Test\<close> contract\<close>

text \<open>
  The development embeds the Cadence declarations of
  \<^verbatim>\<open>src/content/testing-framework.mdx\<close>: the \<open>Matcher\<close> struct with its
  combinators, the result structs, and the \<open>Blockchain\<close> struct, which forwards every
  call to a \<open>BlockchainBackend\<close>.

  A Cadence function may abort (a panic, a failed force-unwrap, a failed assertion) and
  may change state it has captured. A call is therefore a function from the state before
  the call to an outcome and the state after it; an abort keeps the state reached when
  it happened, since the backend lives outside the aborted test function.
\<close>

subsection \<open>Aborts\<close>

datatype Panic =
    ForceUnwrapNil
  | CommitBeforeExecution
  | AssertionFailed string
  | OtherPanic string

type_synonym ('a, 's) call = "'s \<Rightarrow> (Panic + 'a) \<times> 's"

subsection \<open>Values and their types\<close>

text \<open>
  Modelled from the spec: the values of Cadence (\<open>AnyStruct\<close>) and their run-time types
  are part of the language, not of this repository. The fragment below covers the values
  the document's examples use. Every value carries its type: an \<open>Int64\<close> and a
  \<open>UInt64\<close> are different values also when their 64 bits agree, an array carries its
  element type, a composite (a struct or an event) its type identifier.
\<close>

datatype CadenceType =
    IntType
  | Int64Type
  | UInt64Type
  | UInt8Type
  | StringType
  | BoolType
  | AddressType
  | ArrayType CadenceType
  | CompositeType string

datatype AnyStruct =
    IntValue int
  | Int64Value "64 word"
  | UInt64Value "64 word"
  | UInt8Value "8 word"
  | StringValue string
  | BoolValue bool
  | AddressValue "64 word"
  | ArrayValue CadenceType "AnyStruct list"
  | CompositeValue string "(string \<times> AnyStruct) list"

fun getType :: "AnyStruct \<Rightarrow> CadenceType" where
  "getType (IntValue _) = IntType"
| "getType (Int64Value _) = Int64Type"
| "getType (UInt64Value _) = UInt64Type"
| "getType (UInt8Value _) = UInt8Type"
| "getType (StringValue _) = StringType"
| "getType (BoolValue _) = BoolType"
| "getType (AddressValue _) = AddressType"
| "getType (ArrayValue t _) = ArrayType t"
| "getType (CompositeValue name _) = CompositeType name"

text \<open>The number a numeric value stands for: \<open>Int64\<close> reads its bits signed,
  the unsigned types unsigned.\<close>

fun numericValue :: "AnyStruct \<Rightarrow> int option" where
  "numericValue (IntValue i) = Some i"
| "numericValue (Int64Value w) = Some (sint w)"
| "numericValue (UInt64Value w) = Some (uint w)"
| "numericValue (UInt8Value w) = Some (uint w)"
| "numericValue _ = None"

subsection \<open>Matchers\<close>

text \<open>
  \<^verbatim>\<open>
  struct Matcher {
      let test: fun(AnyStruct): Bool
      init(test: fun(AnyStruct): Bool) { self.test = test }
      fun and(_ other: Matcher): Matcher {
          return Matcher(test: fun (value: AnyStruct): Bool {
              return self.test(value) && other.test(value)
          })
      }
      fun or(_ other: Matcher): Matcher {
          return Matcher(test: fun (value: AnyStruct): Bool {
              return self.test(value) || other.test(value)
          })
      }
  }
  \<close>
  The field \<open>test\<close> holds an arbitrary Cadence function, so it is a call over some
  state \<open>'s\<close>. \<open>and\<close> and \<open>or\<close> are constants of HOL already; the
  combinators are named \<open>Matcher_and\<close> and \<open>Matcher_or\<close>.
\<close>

record 's Matcher =
  test :: "AnyStruct \<Rightarrow> (bool, 's) call"

text \<open>
  Cadence's binary operators \<open>&&\<close> and \<open>||\<close> evaluate the left operand first and
  the right operand only when the left one does not decide the result; an abort of an
  operand aborts the expression.
\<close>

definition logicalAnd :: "(bool, 's) call \<Rightarrow> (bool, 's) call \<Rightarrow> (bool, 's) call" where
  "logicalAnd left right s =
     (case left s of
        (Inl p, s1) \<Rightarrow> (Inl p, s1)
      | (Inr b, s1) \<Rightarrow> if b then right s1 else (Inr False, s1))"

definition logicalOr :: "(bool, 's) call \<Rightarrow> (bool, 's) call \<Rightarrow> (bool, 's) call" where
  "logicalOr left right s =
     (case left s of
        (Inl p, s1) \<Rightarrow> (Inl p, s1)
      | (Inr b, s1) \<Rightarrow> if b then (Inr True, s1) else right s1)"

definition Matcher_and :: "'s Matcher \<Rightarrow> 's Matcher \<Rightarrow> 's Matcher" where
  "Matcher_and self other =
     \<lparr>test = (\<lambda>value. logicalAnd (test self value) (test other value))\<rparr>"

definition Matcher_or :: "'s Matcher \<Rightarrow> 's Matcher \<Rightarrow> 's Matcher" where
  "Matcher_or self other =
     \<lparr>test = (\<lambda>value. logicalOr (test self value) (test other value))\<rparr>"

text \<open>
  \<open>Test.newMatcher\<close> wraps a test function, here one over \<open>AnyStruct\<close> (its type
  parameter is optional). A test that is a pure predicate neither aborts nor touches the
  state.
\<close>

definition newMatcher :: "(AnyStruct \<Rightarrow> (bool, 's) call) \<Rightarrow> 's Matcher" where
  "newMatcher f = \<lparr>test = f\<rparr>"

definition pureTest :: "(AnyStruct \<Rightarrow> bool) \<Rightarrow> AnyStruct \<Rightarrow> (bool, 's) call" where
  "pureTest p value s = (Inr (p value), s)"

text \<open>The two custom matchers of the document's example for \<open>and\<close>, a custom
  matcher whose test function aborts, and one that counts its calls in a state of type
  \<open>nat\<close>.\<close>

definition sevenOrMore :: "'s Matcher" where
  "sevenOrMore =
     newMatcher (pureTest (\<lambda>value. case value of IntValue i \<Rightarrow> 7 \<le> i | _ \<Rightarrow> False))"

definition lessThanTen :: "'s Matcher" where
  "lessThanTen =
     newMatcher (pureTest (\<lambda>value. case value of IntValue i \<Rightarrow> i \<le> 10 | _ \<Rightarrow> False))"

definition panicking :: "'s Matcher" where
  "panicking = newMatcher (\<lambda>value s. (Inl (OtherPanic ''unreachable''), s))"

definition counting :: "bool \<Rightarrow> nat Matcher" where
  "counting b = newMatcher (\<lambda>value n. (Inr b, Suc n))"

subsection \<open>Assertions\<close>

text \<open>
  Modelled from the spec: the body of \<open>Test.assertEqual\<close> is native code of the
  Cadence test runner; the document gives its signature
  \<^verbatim>\<open>fun assertEqual(_ expected: AnyStruct, _ actual: AnyStruct)\<close> and says that it
  fails the test case if the given values are not equal, and that the two values need to
  have exactly the same type, and not just value, otherwise the assertion fails. A failed
  assertion aborts the test function.
\<close>

definition assertEqual :: "AnyStruct \<Rightarrow> AnyStruct \<Rightarrow> Panic + unit" where
  "assertEqual expected actual =
     (if getType expected = getType actual \<and> expected = actual then Inr ()
      else Inl (AssertionFailed ''not equal''))"

subsection \<open>Structs of the \<open>Test\<close> contract\<close>

text \<open>
  \<open>Account\<close> and \<open>Transaction\<close> are records. \<open>ScriptResult\<close> and
  \<open>TransactionResult\<close> share the field names \<open>status\<close> and \<open>error\<close>, so they are
  datatypes whose constructor is the struct's \<open>init\<close> and whose selectors are written
  with the struct's name in front.
\<close>

datatype ResultStatus = succeeded | failed

datatype Error = Error (message: string)

record Account =
  address :: "64 word"
  publicKey :: "8 word list"

datatype ScriptResult =
  ScriptResult (status: ResultStatus) (returnValue: "AnyStruct option") (error: "Error option")

record Transaction =
  code :: string
  authorizers :: "64 word list"
  signers :: "Account list"
  arguments :: "AnyStruct list"

datatype TransactionResult =
  TransactionResult (status: ResultStatus) (error: "Error option")

subsection \<open>The backend interface and the \<open>Blockchain\<close> struct\<close>

text \<open>
  \<open>BlockchainBackend\<close> is a struct interface: a backend is a record of its functions
  over the backend's own state \<open>'s\<close>. Of its twelve functions the five below are the
  ones used by the \<open>Blockchain\<close> functions studied here.
\<close>

record 's BlockchainBackend =
  executeScript :: "string \<Rightarrow> AnyStruct list \<Rightarrow> (ScriptResult, 's) call"
  addTransaction :: "Transaction \<Rightarrow> (unit, 's) call"
  executeNextTransaction :: "(TransactionResult option, 's) call"
  commitBlock :: "(unit, 's) call"
  events :: "CadenceType option \<Rightarrow> (AnyStruct list, 's) call"

record 's Blockchain =
  backend :: "'s BlockchainBackend"

definition Blockchain_executeScript ::
    "'s Blockchain \<Rightarrow> string \<Rightarrow> AnyStruct list \<Rightarrow> (ScriptResult, 's) call" where
  "Blockchain_executeScript self script args = executeScript (backend self) script args"

definition Blockchain_addTransaction :: "'s Blockchain \<Rightarrow> Transaction \<Rightarrow> (unit, 's) call" where
  "Blockchain_addTransaction self tx = addTransaction (backend self) tx"

definition Blockchain_executeNextTransaction ::
    "'s Blockchain \<Rightarrow> (TransactionResult option, 's) call" where
  "Blockchain_executeNextTransaction self = executeNextTransaction (backend self)"

definition Blockchain_commitBlock :: "'s Blockchain \<Rightarrow> (unit, 's) call" where
  "Blockchain_commitBlock self = commitBlock (backend self)"

text \<open>
  \<^verbatim>\<open>
  fun executeTransaction(_ tx: Transaction): TransactionResult {
      self.addTransaction(tx)
      let txResult = self.executeNextTransaction()!
      self.commitBlock()
      return txResult
  }
  \<close>
  The force-unwrap \<open>!\<close> aborts on \<open>nil\<close>.
\<close>

definition Blockchain_executeTransaction ::
    "'s Blockchain \<Rightarrow> Transaction \<Rightarrow> (TransactionResult, 's) call" where
  "Blockchain_executeTransaction self tx s =
     (case Blockchain_addTransaction self tx s of
        (Inl p, s1) \<Rightarrow> (Inl p, s1)
      | (Inr _, s1) \<Rightarrow>
          (case Blockchain_executeNextTransaction self s1 of
             (Inl p, s2) \<Rightarrow> (Inl p, s2)
           | (Inr None, s2) \<Rightarrow> (Inl ForceUnwrapNil, s2)
           | (Inr (Some txResult), s2) \<Rightarrow>
               (case Blockchain_commitBlock self s2 of
                  (Inl p, s3) \<Rightarrow> (Inl p, s3)
                | (Inr _, s3) \<Rightarrow> (Inr txResult, s3))))"

text \<open>
  \<^verbatim>\<open>
  fun executeTransactions(_ transactions: [Transaction]): [TransactionResult] {
      for tx in transactions {
          self.addTransaction(tx)
      }
      var results: [TransactionResult] = []
      for tx in transactions {
          let txResult = self.executeNextTransaction()!
          results.append(txResult)
      }
      self.commitBlock()
      return results
  }
  \<close>
  Each \<open>for\<close> loop is a recursion over the array; the second one carries \<open>results\<close>.
\<close>

fun addTransactions_loop :: "'s Blockchain \<Rightarrow> Transaction list \<Rightarrow> (unit, 's) call" where
  "addTransactions_loop self [] s = (Inr (), s)"
| "addTransactions_loop self (tx # rest) s =
     (case Blockchain_addTransaction self tx s of
        (Inl p, s1) \<Rightarrow> (Inl p, s1)
      | (Inr _, s1) \<Rightarrow> addTransactions_loop self rest s1)"

fun executeNext_loop ::
    "'s Blockchain \<Rightarrow> Transaction list \<Rightarrow> TransactionResult list \<Rightarrow>
     (TransactionResult list, 's) call" where
  "executeNext_loop self [] results s = (Inr results, s)"
| "executeNext_loop self (tx # rest) results s =
     (case Blockchain_executeNextTransaction self s of
        (Inl p, s1) \<Rightarrow> (Inl p, s1)
      | (Inr None, s1) \<Rightarrow> (Inl ForceUnwrapNil, s1)
      | (Inr (Some txResult), s1) \<Rightarrow> executeNext_loop self rest (results @ [txResult]) s1)"

definition Blockchain_executeTransactions ::
    "'s Blockchain \<Rightarrow> Transaction list \<Rightarrow> (TransactionResult list, 's) call" where
  "Blockchain_executeTransactions self transactions s =
     (case addTransactions_loop self transactions s of
        (Inl p, s1) \<Rightarrow> (Inl p, s1)
      | (Inr _, s1) \<Rightarrow>
          (case executeNext_loop self transactions [] s1 of
             (Inl p, s2) \<Rightarrow> (Inl p, s2)
           | (Inr results, s2) \<Rightarrow>
               (case Blockchain_commitBlock self s2 of
                  (Inl p, s3) \<Rightarrow> (Inl p, s3)
                | (Inr _, s3) \<Rightarrow> (Inr results, s3))))"

text \<open>
  \<^verbatim>\<open>
  fun events(): [AnyStruct] { return self.backend.events(nil) }
  fun eventsOfType(_ type: Type): [AnyStruct] { return self.backend.events(type) }
  \<close>
\<close>

definition Blockchain_events :: "'s Blockchain \<Rightarrow> (AnyStruct list, 's) call" where
  "Blockchain_events self = events (backend self) None"

definition Blockchain_eventsOfType ::
    "'s Blockchain \<Rightarrow> CadenceType \<Rightarrow> (AnyStruct list, 's) call" where
  "Blockchain_eventsOfType self type = events (backend self) (Some type)"

subsection \<open>Sequential composition of calls\<close>

text \<open>\<open>a; b\<close>: run \<open>a\<close>, and unless it aborted run \<open>b\<close> on its result in the state
  it left.\<close>

definition returnCall :: "'a \<Rightarrow> ('a, 's) call" where
  "returnCall x s = (Inr x, s)"

definition bindCall :: "('a, 's) call \<Rightarrow> ('a \<Rightarrow> ('b, 's) call) \<Rightarrow> ('b, 's) call" where
  "bindCall m f s = (case m s of (Inl p, s1) \<Rightarrow> (Inl p, s1) | (Inr x, s1) \<Rightarrow> f x s1)"

text \<open>
  The spec's words for \<open>executeTransaction\<close>: \<open>addTransaction; executeNextTransaction;
  commitBlock\<close> composed, in that order, returning what the second step produced (an
  optional result, as \<open>executeNextTransaction\<close> returns it).
\<close>

definition spec_executeTransaction ::
    "'s Blockchain \<Rightarrow> Transaction \<Rightarrow> (TransactionResult option, 's) call" where
  "spec_executeTransaction self tx =
     bindCall (Blockchain_addTransaction self tx) (\<lambda>_.
     bindCall (Blockchain_executeNextTransaction self) (\<lambda>produced.
     bindCall (Blockchain_commitBlock self) (\<lambda>_.
     returnCall produced)))"

text \<open>An outcome of type \<open>TransactionResult\<close> read as an optional one.\<close>

definition asOptional :: "(Panic + 'a) \<times> 's \<Rightarrow> (Panic + 'a option) \<times> 's" where
  "asOptional out = (case out of (Inl p, s) \<Rightarrow> (Inl p, s) | (Inr x, s) \<Rightarrow> (Inr (Some x), s))"

definition aborted :: "Panic + 'a \<Rightarrow> bool" where
  "aborted r = (case r of Inl _ \<Rightarrow> True | Inr _ \<Rightarrow> False)"

subsection \<open>Runs of backend calls\<close>

text \<open>
  A run of calls, told by what each call returned and the state it left:
  \<open>callsAdd self s adds\<close> says that, from \<open>s\<close>, adding the transactions of \<open>adds\<close>
  one after the other succeeds and leaves the states paired with them;
  \<open>callsNext self s steps\<close> says that, from \<open>s\<close>, as many calls of
  \<open>executeNextTransaction\<close> return the results of \<open>steps\<close>, none of them \<open>nil\<close>,
  and leave the states paired with them. \<open>stateAfter s run\<close> is the state a run that
  started in \<open>s\<close> ends in.
\<close>

fun callsAdd :: "'s Blockchain \<Rightarrow> 's \<Rightarrow> (Transaction \<times> 's) list \<Rightarrow> bool" where
  "callsAdd self s [] = True"
| "callsAdd self s ((tx, s') # rest) =
     (Blockchain_addTransaction self tx s = (Inr (), s') \<and> callsAdd self s' rest)"

fun callsNext :: "'s Blockchain \<Rightarrow> 's \<Rightarrow> (TransactionResult \<times> 's) list \<Rightarrow> bool" where
  "callsNext self s [] = True"
| "callsNext self s ((r, s') # rest) =
     (Blockchain_executeNextTransaction self s = (Inr (Some r), s') \<and> callsNext self s' rest)"

definition stateAfter :: "'s \<Rightarrow> ('a \<times> 's) list \<Rightarrow> 's" where
  "stateAfter s run = last (s # map snd run)"

subsection \<open>A backend that records the calls it receives\<close>

text \<open>
  Any implementation of the interface is a backend. \<open>recording b\<close> behaves as \<open>b\<close>
  and appends every call it receives to a log, before it serves the call.
\<close>

datatype BackendCall =
    ExecuteScriptCall
  | AddTransactionCall Transaction
  | ExecuteNextTransactionCall
  | CommitBlockCall
  | EventsCall

definition logged :: "BackendCall \<Rightarrow> ('a, 's) call \<Rightarrow> ('a, BackendCall list \<times> 's) call" where
  "logged c f = (\<lambda>(log, s). case f s of (r, s') \<Rightarrow> (r, (log @ [c], s')))"

definition recording :: "'s BlockchainBackend \<Rightarrow> (BackendCall list \<times> 's) BlockchainBackend" where
  "recording b =
     \<lparr>executeScript = (\<lambda>script args. logged ExecuteScriptCall (executeScript b script args)),
      addTransaction = (\<lambda>tx. logged (AddTransactionCall tx) (addTransaction b tx)),
      executeNextTransaction = logged ExecuteNextTransactionCall (executeNextTransaction b),
      commitBlock = logged CommitBlockCall (commitBlock b),
      events = (\<lambda>type. logged EventsCall (events b type))\<rparr>"

definition recordingBlockchain :: "'s Blockchain \<Rightarrow> (BackendCall list \<times> 's) Blockchain" where
  "recordingBlockchain self = \<lparr>backend = recording (backend self)\<rparr>"

subsection \<open>The emulator backend\<close>

text \<open>
  Modelled from the spec: the implementation of \<open>BlockchainBackend\<close> behind
  \<open>Test.newEmulatorBlockchain\<close> is the Flow emulator, which is not part of this
  repository. The spec describes it: \<open>addTransaction\<close> enqueues into the pending block
  and executes nothing; \<open>executeNextTransaction\<close> executes the oldest enqueued
  transaction (FIFO) and returns its result, or the empty result when nothing is
  enqueued; \<open>commitBlock\<close> finalizes the pending block and fails if an enqueued
  transaction has not been executed, the block then remaining pending; \<open>events\<close> is
  the ordered sequence of all events emitted, optionally filtered by declared type; a
  result is a success with an optional return value or a failure with an error.

  The interpreter that runs a script or a transaction on the ledger is a parameter.
\<close>

record 'l Runtime =
  runScript :: "string \<Rightarrow> AnyStruct list \<Rightarrow> 'l \<Rightarrow> Error + AnyStruct option"
  runTransaction :: "Transaction \<Rightarrow> 'l \<Rightarrow> Error option \<times> AnyStruct list \<times> 'l"

record 'l Emulator =
  ledger :: 'l
  executedTransactions :: "Transaction list"
  queuedTransactions :: "Transaction list"
  committedBlocks :: "Transaction list list"
  emittedEvents :: "AnyStruct list"

definition scriptResultOf :: "Error + AnyStruct option \<Rightarrow> ScriptResult" where
  "scriptResultOf out =
     (case out of
        Inl e \<Rightarrow> ScriptResult failed None (Some e)
      | Inr v \<Rightarrow> ScriptResult succeeded v None)"

definition transactionResultOf :: "Error option \<Rightarrow> TransactionResult" where
  "transactionResultOf out =
     (case out of
        None \<Rightarrow> TransactionResult succeeded None
      | Some e \<Rightarrow> TransactionResult failed (Some e))"

definition emulator_executeScript ::
    "'l Runtime \<Rightarrow> string \<Rightarrow> AnyStruct list \<Rightarrow> (ScriptResult, 'l Emulator) call" where
  "emulator_executeScript rt script args s =
     (Inr (scriptResultOf (runScript rt script args (ledger s))), s)"

definition emulator_addTransaction :: "Transaction \<Rightarrow> (unit, 'l Emulator) call" where
  "emulator_addTransaction tx s =
     (Inr (), s\<lparr>queuedTransactions := queuedTransactions s @ [tx]\<rparr>)"

definition emulator_executeNextTransaction ::
    "'l Runtime \<Rightarrow> (TransactionResult option, 'l Emulator) call" where
  "emulator_executeNextTransaction rt s =
     (case queuedTransactions s of
        [] \<Rightarrow> (Inr None, s)
      | tx # rest \<Rightarrow>
          (case runTransaction rt tx (ledger s) of
             (err, emitted, ledger') \<Rightarrow>
               (Inr (Some (transactionResultOf err)),
                s\<lparr>ledger := ledger',
                  executedTransactions := executedTransactions s @ [tx],
                  queuedTransactions := rest,
                  emittedEvents := emittedEvents s @ emitted\<rparr>)))"

definition emulator_commitBlock :: "(unit, 'l Emulator) call" where
  "emulator_commitBlock s =
     (if queuedTransactions s \<noteq> [] then (Inl CommitBeforeExecution, s)
      else (Inr (),
            s\<lparr>committedBlocks := committedBlocks s @ [executedTransactions s],
              executedTransactions := []\<rparr>))"

definition emulator_events :: "CadenceType option \<Rightarrow> (AnyStruct list, 'l Emulator) call" where
  "emulator_events type s =
     (Inr (case type of
             None \<Rightarrow> emittedEvents s
           | Some t \<Rightarrow> filter (\<lambda>e. getType e = t) (emittedEvents s)),
      s)"

definition emulatorBackend :: "'l Runtime \<Rightarrow> 'l Emulator BlockchainBackend" where
  "emulatorBackend rt =
     \<lparr>executeScript = emulator_executeScript rt,
      addTransaction = emulator_addTransaction,
      executeNextTransaction = emulator_executeNextTransaction rt,
      commitBlock = emulator_commitBlock,
      events = emulator_events\<rparr>"

definition newEmulatorBlockchain :: "'l Runtime \<Rightarrow> 'l Emulator Blockchain" where
  "newEmulatorBlockchain rt = \<lparr>backend = emulatorBackend rt\<rparr>"

text \<open>Running transactions one after the other: their results, and the ledger they
  leave.\<close>

fun ledgerAfter :: "'l Runtime \<Rightarrow> 'l \<Rightarrow> Transaction list \<Rightarrow> 'l" where
  "ledgerAfter rt l [] = l"
| "ledgerAfter rt l (tx # rest) = ledgerAfter rt (snd (snd (runTransaction rt tx l))) rest"

fun resultsOf :: "'l Runtime \<Rightarrow> 'l \<Rightarrow> Transaction list \<Rightarrow> TransactionResult list" where
  "resultsOf rt l [] = []"
| "resultsOf rt l (tx # rest) =
     transactionResultOf (fst (runTransaction rt tx l))
       # resultsOf rt (snd (snd (runTransaction rt tx l))) rest"

fun eventsOf :: "'l Runtime \<Rightarrow> 'l \<Rightarrow> Transaction list \<Rightarrow> AnyStruct list" where
  "eventsOf rt l [] = []"
| "eventsOf rt l (tx # rest) =
     fst (snd (runTransaction rt tx l))
       @ eventsOf rt (snd (snd (runTransaction rt tx l))) rest"

text \<open>The emulator after it has executed the transactions \<open>q\<close> from the front of
  its queue, \<open>rest\<close> being what is left of the queue.\<close>

definition afterExecuting ::
    "'l Runtime \<Rightarrow> Transaction list \<Rightarrow> Transaction list \<Rightarrow> 'l Emulator \<Rightarrow> 'l Emulator" where
  "afterExecuting rt q rest s =
     s\<lparr>ledger := ledgerAfter rt (ledger s) q,
       executedTransactions := executedTransactions s @ q,
       queuedTransactions := rest,
       emittedEvents := emittedEvents s @ eventsOf rt (ledger s) q\<rparr>"

text \<open>
  The documented shapes of a result: a success has the status \<open>succeeded\<close> and no
  error (and, for a script, an optional return value); a failure has the status
  \<open>failed\<close> and an error. A result is well formed when it has exactly one of the two
  shapes and, for a script, no return value when it failed.
\<close>

definition scriptSuccess :: "ScriptResult \<Rightarrow> bool" where
  "scriptSuccess r = (ScriptResult.status r = succeeded \<and> ScriptResult.error r = None)"

definition scriptFailure :: "ScriptResult \<Rightarrow> bool" where
  "scriptFailure r = (ScriptResult.status r = failed \<and> ScriptResult.error r \<noteq> None)"

definition wellFormedScriptResult :: "ScriptResult \<Rightarrow> bool" where
  "wellFormedScriptResult r =
     ((scriptSuccess r \<noteq> scriptFailure r)
      \<and> (if ScriptResult.status r = failed then ScriptResult.returnValue r = None else True))"

definition transactionSuccess :: "TransactionResult \<Rightarrow> bool" where
  "transactionSuccess r =
     (TransactionResult.status r = succeeded \<and> TransactionResult.error r = None)"

definition transactionFailure :: "TransactionResult \<Rightarrow> bool" where
  "transactionFailure r =
     (TransactionResult.status r = failed \<and> TransactionResult.error r \<noteq> None)"

definition wellFormedTransactionResult :: "TransactionResult \<Rightarrow> bool" where
  "wellFormedTransactionResult r = (transactionSuccess r \<noteq> transactionFailure r)"

subsection \<open>Concrete instances\<close>

text \<open>
  An interpreter over a ledger that counts the transactions that succeeded: a script or
  a transaction whose code is \<open>panic\<close> fails, any other transaction succeeds and emits
  one event whose type is named by its code, any other script returns the count.
\<close>

definition countingRuntime :: "nat Runtime" where
  "countingRuntime =
     \<lparr>runScript = (\<lambda>script args l.
        if script = ''panic'' then Inl (Error ''some error'')
        else Inr (Some (IntValue (int l)))),
      runTransaction = (\<lambda>tx l.
        if code tx = ''panic'' then (Some (Error ''some error''), [], l)
        else (None, [CompositeValue (code tx) []], Suc l))\<rparr>"

definition genesis :: "'l \<Rightarrow> 'l Emulator" where
  "genesis l =
     \<lparr>ledger = l, executedTransactions = [], queuedTransactions = [],
      committedBlocks = [], emittedEvents = []\<rparr>"

definition transactionWith :: "string \<Rightarrow> Transaction" where
  "transactionWith c = \<lparr>code = c, authorizers = [], signers = [], arguments = []\<rparr>"

text \<open>A backend that keeps a transaction only while its queue is empty and drops
  every other one.\<close>

definition keepOneBackend :: "'l Runtime \<Rightarrow> 'l Emulator BlockchainBackend" where
  "keepOneBackend rt =
     (emulatorBackend rt)\<lparr>addTransaction := (\<lambda>tx s.
        if queuedTransactions s = [] then emulator_addTransaction tx s else (Inr (), s))\<rparr>"

text \<open>The state of the document's commit example: a fresh emulator, a block
  committed, one transaction added.\<close>

definition afterAdd :: "nat Emulator" where
  "afterAdd = snd (Blockchain_addTransaction (newEmulatorBlockchain countingRuntime)
     (transactionWith ''a'')
     (snd (Blockchain_commitBlock (newEmulatorBlockchain countingRuntime) (genesis 0))))"

text \<open>A backend that accepts a transaction and drops it: it implements the interface,
  and its \<open>executeNextTransaction\<close> finds nothing to execute.\<close>

definition droppingBackend :: "'l Runtime \<Rightarrow> 'l Emulator BlockchainBackend" where
  "droppingBackend rt = (emulatorBackend rt)\<lparr>addTransaction := (\<lambda>tx s. (Inr (), s))\<rparr>"

section \<open>Matcher combinators\<close>

text \<open>
  C3. For all matchers \<open>m1\<close>, \<open>m2\<close> and every value \<open>v\<close>, the test of
  \<open>m1.and(m2)\<close> at \<open>v\<close> is the expression \<open>m1.test(v) && m2.test(v)\<close>: the same
  outcome and the same state after it, from every state. When \<open>m1.test(v)\<close> returns
  \<open>b1\<close> and \<open>m2.test(v)\<close>, run next, returns \<open>b2\<close>, the combined test returns the
  conjunction of \<open>b1\<close> and \<open>b2\<close>.
\<close>

theorem Matcher_and_test:
  "test (Matcher_and m1 m2) v s = logicalAnd (test m1 v) (test m2 v) s
   \<and> (test m1 v s = (Inr b1, s1) \<longrightarrow> test m2 v s1 = (Inr b2, s2) \<longrightarrow>
        fst (test (Matcher_and m1 m2) v s) = Inr (b1 \<and> b2))"
  by (simp add: Matcher_and_def logicalAnd_def)

theorem Matcher_and_test_witness:
  "test (sevenOrMore :: unit Matcher) (IntValue 8) () = (Inr True, ())
   \<and> test (lessThanTen :: unit Matcher) (IntValue 8) () = (Inr True, ())
   \<and> fst (test (Matcher_and sevenOrMore lessThanTen) (IntValue 8) ()) = Inr True
   \<and> fst (test (Matcher_and sevenOrMore lessThanTen) (IntValue 11) ()) = Inr False"
  using Matcher_and_test [of sevenOrMore lessThanTen "IntValue 8" "()" True "()" True "()"]
    Matcher_and_test [of sevenOrMore lessThanTen "IntValue 11" "()" True "()" False "()"]
  by (simp add: sevenOrMore_def lessThanTen_def newMatcher_def pureTest_def Matcher_and_def
      logicalAnd_def)

text \<open>
  C4. For all matchers \<open>m1\<close>, \<open>m2\<close> and every value \<open>v\<close>, the test of
  \<open>m1.or(m2)\<close> at \<open>v\<close> is the expression \<open>m1.test(v) || m2.test(v)\<close>; when the two
  tests return \<open>b1\<close> and \<open>b2\<close> the combined test returns their disjunction; and when
  \<open>m1.test(v)\<close> returns true, the combined test returns true in the state \<open>m1\<close> left,
  whatever \<open>m2\<close> is: the test function of \<open>m2\<close> is not evaluated.
\<close>

theorem Matcher_or_test:
  "test (Matcher_or m1 m2) v s = logicalOr (test m1 v) (test m2 v) s
   \<and> (test m1 v s = (Inr b1, s1) \<longrightarrow> test m2 v s1 = (Inr b2, s2) \<longrightarrow>
        fst (test (Matcher_or m1 m2) v s) = Inr (b1 \<or> b2))
   \<and> (test m1 v s = (Inr True, s1) \<longrightarrow> test (Matcher_or m1 m2) v s = (Inr True, s1))"
  by (simp add: Matcher_or_def logicalOr_def)

theorem Matcher_or_test_witness:
  "test (Matcher_or (counting True) (counting False)) (IntValue 2) 0 = (Inr True, 1)
   \<and> test (Matcher_or (counting True) panicking) (IntValue 2) 0 = (Inr True, 1)
   \<and> test (Matcher_or (counting False) (counting True)) (IntValue 2) 0 = (Inr True, 2)"
  using Matcher_or_test [of "counting True" "counting False" "IntValue 2" 0 True 1 True 2]
    Matcher_or_test [of "counting True" panicking "IntValue 2" 0 True 1 True 2]
    Matcher_or_test [of "counting False" "counting True" "IntValue 2" 0 False 1 True 2]
  by (simp add: counting_def panicking_def newMatcher_def logicalOr_def Matcher_or_def)

section \<open>The emulator behind the \<open>Blockchain\<close> functions\<close>

text \<open>What one call of the emulator does, and what the two loops of
  \<open>executeTransactions\<close> do on it.\<close>

lemma emulator_add [simp]:
  "Blockchain_addTransaction (newEmulatorBlockchain rt) tx s =
     (Inr (), s\<lparr>queuedTransactions := queuedTransactions s @ [tx]\<rparr>)"
  by (simp add: Blockchain_addTransaction_def newEmulatorBlockchain_def emulatorBackend_def
      emulator_addTransaction_def)

lemma emulator_next [simp]:
  "Blockchain_executeNextTransaction (newEmulatorBlockchain rt) =
     emulator_executeNextTransaction rt"
  by (simp add: Blockchain_executeNextTransaction_def newEmulatorBlockchain_def
      emulatorBackend_def)

lemma emulator_commit [simp]:
  "Blockchain_commitBlock (newEmulatorBlockchain rt) = emulator_commitBlock"
  by (simp add: Blockchain_commitBlock_def newEmulatorBlockchain_def emulatorBackend_def)

lemma emulator_next_Cons:
  "queuedTransactions s = tx # rest \<Longrightarrow>
   emulator_executeNextTransaction rt s =
     (Inr (Some (transactionResultOf (fst (runTransaction rt tx (ledger s))))),
      afterExecuting rt [tx] rest s)"
  by (simp add: emulator_executeNextTransaction_def afterExecuting_def split: prod.splits)

lemma emulator_next_Nil:
  "queuedTransactions s = [] \<Longrightarrow> emulator_executeNextTransaction rt s = (Inr None, s)"
  by (simp add: emulator_executeNextTransaction_def)

lemma afterExecuting_Cons:
  "afterExecuting rt q rest (afterExecuting rt [tx] rest' s) = afterExecuting rt (tx # q) rest s"
  by (simp add: afterExecuting_def)

lemma addTransactions_loop_emulator:
  "addTransactions_loop (newEmulatorBlockchain rt) txs s =
     (Inr (), s\<lparr>queuedTransactions := queuedTransactions s @ txs\<rparr>)"
  by (induction txs arbitrary: s) simp_all

lemma executeNext_loop_emulator:
  "queuedTransactions s = q @ rest \<Longrightarrow> length ts = length q \<Longrightarrow>
   executeNext_loop (newEmulatorBlockchain rt) ts acc s =
     (Inr (acc @ resultsOf rt (ledger s) q), afterExecuting rt q rest s)"
proof (induction q arbitrary: ts acc s)
  case Nil
  then show ?case by (simp add: afterExecuting_def)
next
  case (Cons tx q)
  then obtain t ts' where ts: "ts = t # ts'" and len: "length ts' = length q"
    by (cases ts) auto
  have queue: "queuedTransactions s = tx # (q @ rest)"
    using Cons.prems(1) by simp
  have next_queue: "queuedTransactions (afterExecuting rt [tx] (q @ rest) s) = q @ rest"
    by (simp add: afterExecuting_def)
  have led: "ledger (afterExecuting rt [tx] (q @ rest) s) = snd (snd (runTransaction rt tx (ledger s)))"
    by (simp add: afterExecuting_def)
  show ?case
    using Cons.IH [OF next_queue len]
    by (simp add: ts emulator_next_Cons [OF queue] afterExecuting_Cons led)
qed

lemma afterExecuting_queued:
  "queuedTransactions (afterExecuting rt q rest s) = rest"
  by (simp add: afterExecuting_def)

lemma executeTransactions_emulator:
  assumes split: "queuedTransactions s @ txs = q @ rest" and len: "length txs = length q"
  shows "Blockchain_executeTransactions (newEmulatorBlockchain rt) txs s =
     (case emulator_commitBlock (afterExecuting rt q rest s) of
        (Inl p, s3) \<Rightarrow> (Inl p, s3)
      | (Inr u, s3) \<Rightarrow> (Inr (resultsOf rt (ledger s) q), s3))"
proof -
  let ?s1 = "s\<lparr>queuedTransactions := queuedTransactions s @ txs\<rparr>"
  have q: "queuedTransactions ?s1 = q @ rest" using split by simp
  have "executeNext_loop (newEmulatorBlockchain rt) txs [] ?s1 =
          (Inr ([] @ resultsOf rt (ledger ?s1) q), afterExecuting rt q rest ?s1)"
    by (rule executeNext_loop_emulator [OF q len])
  moreover have "afterExecuting rt q rest ?s1 = afterExecuting rt q rest s"
    by (simp add: afterExecuting_def)
  ultimately show ?thesis
    by (simp add: Blockchain_executeTransactions_def addTransactions_loop_emulator)
qed

lemma executeTransactions_emulator_empty_queue:
  assumes "queuedTransactions s = []"
  shows "Blockchain_executeTransactions (newEmulatorBlockchain rt) txs s =
     (Inr (resultsOf rt (ledger s) txs),
      (afterExecuting rt txs [] s)
        \<lparr>committedBlocks := committedBlocks s @ [executedTransactions s @ txs],
         executedTransactions := []\<rparr>)"
proof -
  have "queuedTransactions s @ txs = txs @ []" using assms by simp
  from executeTransactions_emulator [OF this refl, of rt] show ?thesis
    by (simp add: emulator_commitBlock_def afterExecuting_def)
qed

lemma executeTransactions_emulator_pending:
  assumes "queuedTransactions s \<noteq> []"
  shows "Blockchain_executeTransactions (newEmulatorBlockchain rt) txs s =
     (Inl CommitBeforeExecution,
      afterExecuting rt (take (length txs) (queuedTransactions s @ txs))
        (drop (length txs) (queuedTransactions s @ txs)) s)"
proof -
  define q where "q = take (length txs) (queuedTransactions s @ txs)"
  define rest where "rest = drop (length txs) (queuedTransactions s @ txs)"
  have split: "queuedTransactions s @ txs = q @ rest"
    unfolding q_def rest_def by (rule append_take_drop_id [symmetric])
  have len: "length txs = length q"
    unfolding q_def by simp
  have "\<not> length (queuedTransactions s @ txs) \<le> length txs"
    using assms by (cases "queuedTransactions s") simp_all
  then have "rest \<noteq> []"
    unfolding rest_def by (simp only: drop_eq_Nil not_False_eq_True)
  with executeTransactions_emulator [OF split len, of rt]
  have "Blockchain_executeTransactions (newEmulatorBlockchain rt) txs s =
          (Inl CommitBeforeExecution, afterExecuting rt q rest s)"
    by (simp add: emulator_commitBlock_def afterExecuting_queued)
  then show ?thesis
    unfolding q_def rest_def .
qed

lemma executeTransaction_emulator:
  "Blockchain_executeTransaction (newEmulatorBlockchain rt) tx s =
     (case queuedTransactions s @ [tx] of
        first # rest \<Rightarrow>
          (case emulator_commitBlock (afterExecuting rt [first] rest s) of
             (Inl p, s3) \<Rightarrow> (Inl p, s3)
           | (Inr u, s3) \<Rightarrow>
               (Inr (transactionResultOf (fst (runTransaction rt first (ledger s)))), s3)))"
proof (cases "queuedTransactions s @ [tx]")
  case Nil
  then show ?thesis by simp
next
  case (Cons first rest)
  let ?s1 = "s\<lparr>queuedTransactions := queuedTransactions s @ [tx]\<rparr>"
  have q: "queuedTransactions ?s1 = first # rest" using Cons by simp
  have "afterExecuting rt [first] rest ?s1 = afterExecuting rt [first] rest s"
    by (simp add: afterExecuting_def)
  then show ?thesis
    using Cons emulator_next_Cons [OF q, of rt]
    by (simp add: Blockchain_executeTransaction_def)
qed

lemmas emulator_unfold =
  newEmulatorBlockchain_def emulatorBackend_def Blockchain_addTransaction_def
  Blockchain_executeNextTransaction_def Blockchain_commitBlock_def
  emulator_addTransaction_def emulator_executeNextTransaction_def emulator_commitBlock_def
  countingRuntime_def genesis_def transactionWith_def transactionResultOf_def

section \<open>The recording backend\<close>

text \<open>On \<open>recording b\<close> a function of \<open>Blockchain\<close> computes what it computes on
  \<open>b\<close>, and the log grows by the calls it made.\<close>

lemma recording_add:
  "Blockchain_addTransaction (recordingBlockchain self) tx (log, s) =
     (fst (Blockchain_addTransaction self tx s),
      (log @ [AddTransactionCall tx], snd (Blockchain_addTransaction self tx s)))"
  by (simp add: Blockchain_addTransaction_def recordingBlockchain_def recording_def logged_def
      split: prod.splits)

lemma recording_next:
  "Blockchain_executeNextTransaction (recordingBlockchain self) (log, s) =
     (fst (Blockchain_executeNextTransaction self s),
      (log @ [ExecuteNextTransactionCall], snd (Blockchain_executeNextTransaction self s)))"
  by (simp add: Blockchain_executeNextTransaction_def recordingBlockchain_def recording_def
      logged_def split: prod.splits)

lemma recording_commit:
  "Blockchain_commitBlock (recordingBlockchain self) (log, s) =
     (fst (Blockchain_commitBlock self s),
      (log @ [CommitBlockCall], snd (Blockchain_commitBlock self s)))"
  by (simp add: Blockchain_commitBlock_def recordingBlockchain_def recording_def logged_def
      split: prod.splits)

lemma addTransactions_loop_recording:
  "fst (addTransactions_loop self txs s) = Inr u \<Longrightarrow>
   addTransactions_loop (recordingBlockchain self) txs (log, s) =
     (Inr u, (log @ map AddTransactionCall txs, snd (addTransactions_loop self txs s)))"
proof (induction txs arbitrary: s log)
  case Nil
  then show ?case by simp
next
  case (Cons tx txs)
  obtain r s1 where step: "Blockchain_addTransaction self tx s = (r, s1)"
    by (cases "Blockchain_addTransaction self tx s")
  show ?case
  proof (cases r)
    case (Inl p)
    with Cons.prems step show ?thesis by simp
  next
    case (Inr x)
    with Cons.prems step have "fst (addTransactions_loop self txs s1) = Inr u" by simp
    from Cons.IH [OF this, of "log @ [AddTransactionCall tx]"] step Inr
    show ?thesis by (simp add: recording_add)
  qed
qed

lemma executeNext_loop_recording:
  "fst (executeNext_loop self ts acc s) = Inr rs \<Longrightarrow>
   executeNext_loop (recordingBlockchain self) ts acc (log, s) =
     (Inr rs, (log @ replicate (length ts) ExecuteNextTransactionCall,
               snd (executeNext_loop self ts acc s)))"
proof (induction ts arbitrary: s log acc)
  case Nil
  then show ?case by simp
next
  case (Cons t ts)
  obtain r s1 where step: "Blockchain_executeNextTransaction self s = (r, s1)"
    by (cases "Blockchain_executeNextTransaction self s")
  show ?case
  proof (cases r)
    case (Inl p)
    with Cons.prems step show ?thesis by simp
  next
    case (Inr produced)
    show ?thesis
    proof (cases produced)
      case None
      with Cons.prems step Inr show ?thesis by simp
    next
      case (Some txResult)
      with Cons.prems step Inr
      have "fst (executeNext_loop self ts (acc @ [txResult]) s1) = Inr rs" by simp
      from Cons.IH [OF this, of "log @ [ExecuteNextTransactionCall]"] step Inr Some
      show ?thesis by (simp add: recording_next replicate_append_same)
    qed
  qed
qed

lemma executeNext_loop_length:
  "executeNext_loop self ts acc s = (Inr rs, s') \<Longrightarrow> length rs = length acc + length ts"
proof (induction ts arbitrary: s acc)
  case Nil
  then show ?case by simp
next
  case (Cons t ts)
  then show ?case
    by (fastforce split: prod.splits sum.splits option.splits)
qed

lemma executeTransactions_recording:
  assumes "addTransactions_loop self txs s = (Inr u, s1)"
    and "fst (executeNext_loop self txs [] s1) = Inr rs"
  shows "Blockchain_executeTransactions (recordingBlockchain self) txs (log, s) =
     (fst (Blockchain_executeTransactions self txs s),
      (log @ map AddTransactionCall txs @ replicate (length txs) ExecuteNextTransactionCall
         @ [CommitBlockCall],
       snd (Blockchain_executeTransactions self txs s)))"
proof -
  obtain s2 where s2: "executeNext_loop self txs [] s1 = (Inr rs, s2)"
    using assms(2) by (cases "executeNext_loop self txs [] s1") auto
  have a: "addTransactions_loop (recordingBlockchain self) txs (log, s) =
             (Inr u, (log @ map AddTransactionCall txs, s1))"
    using addTransactions_loop_recording [of self txs s u log] assms(1) by simp
  have b: "executeNext_loop (recordingBlockchain self) txs [] (log @ map AddTransactionCall txs, s1) =
             (Inr rs, ((log @ map AddTransactionCall txs)
                         @ replicate (length txs) ExecuteNextTransactionCall, s2))"
    using executeNext_loop_recording [of self txs "[]" s1 rs "log @ map AddTransactionCall txs"] s2
    by simp
  show ?thesis
    by (simp add: Blockchain_executeTransactions_def a b assms(1) s2 recording_commit
        split: prod.splits sum.splits)
qed

lemma executeTransaction_recording_emulator:
  "Blockchain_executeTransaction (recordingBlockchain (newEmulatorBlockchain rt)) tx (log, s) =
     (fst (Blockchain_executeTransaction (newEmulatorBlockchain rt) tx s),
      (log @ [AddTransactionCall tx, ExecuteNextTransactionCall, CommitBlockCall],
       snd (Blockchain_executeTransaction (newEmulatorBlockchain rt) tx s)))"
proof (cases "queuedTransactions s @ [tx]")
  case Nil
  then show ?thesis by simp
next
  case (Cons first rest)
  let ?s1 = "s\<lparr>queuedTransactions := queuedTransactions s @ [tx]\<rparr>"
  have q: "queuedTransactions ?s1 = first # rest" using Cons by simp
  show ?thesis
    by (simp add: Blockchain_executeTransaction_def recording_add recording_next
        recording_commit emulator_next_Cons [OF q] split: prod.splits sum.splits)
qed

lemma executeTransaction_returns_iff:
  "(Blockchain_executeTransaction self tx s = (Inr r, s')) =
   (spec_executeTransaction self tx s = (Inr (Some r), s'))"
  by (auto simp add: Blockchain_executeTransaction_def spec_executeTransaction_def bindCall_def
      returnCall_def split: prod.splits sum.splits option.splits)

lemma executeTransaction_emulator_spec:
  "asOptional (Blockchain_executeTransaction (newEmulatorBlockchain rt) tx s) =
     spec_executeTransaction (newEmulatorBlockchain rt) tx s"
proof (cases "queuedTransactions s @ [tx]")
  case Nil
  then show ?thesis by simp
next
  case (Cons first rest)
  let ?s1 = "s\<lparr>queuedTransactions := queuedTransactions s @ [tx]\<rparr>"
  have q: "queuedTransactions ?s1 = first # rest" using Cons by simp
  show ?thesis
    by (simp add: Blockchain_executeTransaction_def spec_executeTransaction_def bindCall_def
        returnCall_def asOptional_def emulator_next_Cons [OF q] split: prod.splits sum.splits)
qed


section \<open>\<open>executeTransaction\<close>\<close>

text \<open>
  C1. \<open>executeTransaction(tx)\<close> is the composition \<open>addTransaction(tx)\<close>, then
  \<open>executeNextTransaction()\<close>, then \<open>commitBlock()\<close>, returning what the second step
  produced. For every backend, the function returns \<open>r\<close> and leaves the state \<open>s0'\<close>
  exactly when the composition produces \<open>r\<close> and leaves \<open>s0'\<close>. On the emulator, for
  every transaction and every state, the outcome of the function (read as an optional
  result) and the state it leaves are those of the composition, also when the commit
  fails; and the backend receives exactly the three calls, in that order.
\<close>

theorem executeTransaction_composition:
  "(Blockchain_executeTransaction self tx s0 = (Inr r, s0')) =
     (spec_executeTransaction self tx s0 = (Inr (Some r), s0'))
   \<and> asOptional (Blockchain_executeTransaction (newEmulatorBlockchain rt) tx s) =
       spec_executeTransaction (newEmulatorBlockchain rt) tx s
   \<and> Blockchain_executeTransaction (recordingBlockchain (newEmulatorBlockchain rt)) tx (log, s) =
       (fst (Blockchain_executeTransaction (newEmulatorBlockchain rt) tx s),
        (log @ [AddTransactionCall tx, ExecuteNextTransactionCall, CommitBlockCall],
         snd (Blockchain_executeTransaction (newEmulatorBlockchain rt) tx s)))"
  using executeTransaction_returns_iff [of self tx s0 r s0']
    executeTransaction_emulator_spec [of rt tx s]
    executeTransaction_recording_emulator [of rt tx log s]
  by simp

theorem executeTransaction_composition_witness:
  "Blockchain_executeTransaction (newEmulatorBlockchain countingRuntime) (transactionWith ''a'')
       (genesis 0) =
     (Inr (TransactionResult succeeded None),
      \<lparr>ledger = 1, executedTransactions = [], queuedTransactions = [],
       committedBlocks = [[transactionWith ''a'']],
       emittedEvents = [CompositeValue ''a'' []]\<rparr>)
   \<and> spec_executeTransaction (newEmulatorBlockchain countingRuntime) (transactionWith ''a'')
       (genesis 0) =
     (Inr (Some (TransactionResult succeeded None)),
      \<lparr>ledger = 1, executedTransactions = [], queuedTransactions = [],
       committedBlocks = [[transactionWith ''a'']],
       emittedEvents = [CompositeValue ''a'' []]\<rparr>)
   \<and> fst (snd (Blockchain_executeTransaction
        (recordingBlockchain (newEmulatorBlockchain countingRuntime)) (transactionWith ''a'')
        ([], genesis 0))) =
     [AddTransactionCall (transactionWith ''a''), ExecuteNextTransactionCall, CommitBlockCall]"
proof -
  have run: "Blockchain_executeTransaction (newEmulatorBlockchain countingRuntime)
       (transactionWith ''a'') (genesis 0) =
     (Inr (TransactionResult succeeded None),
      \<lparr>ledger = 1, executedTransactions = [], queuedTransactions = [],
       committedBlocks = [[transactionWith ''a'']],
       emittedEvents = [CompositeValue ''a'' []]\<rparr>)"
    by (simp add: Blockchain_executeTransaction_def emulator_unfold)
  from run executeTransaction_composition
    [where self = "newEmulatorBlockchain countingRuntime" and tx = "transactionWith ''a''"
        and ?s0.0 = "genesis 0" and r = "TransactionResult succeeded None"
        and s0' = "\<lparr>ledger = 1, executedTransactions = [], queuedTransactions = [],
          committedBlocks = [[transactionWith ''a'']],
          emittedEvents = [CompositeValue ''a'' []]\<rparr>"
        and rt = countingRuntime and s = "genesis 0" and log = "[]"]
  show ?thesis by simp
qed

section \<open>\<open>commitBlock\<close>\<close>

text \<open>
  C2. On the emulator, for every state, \<open>commitBlock()\<close> fails if and only if the
  pending block holds a transaction that was added and not executed (the queue is not
  empty); it then fails with the state unchanged, the block remaining pending. With no
  transaction pending, or with every enqueued transaction executed, it succeeds and
  appends the block.
\<close>

theorem commitBlock_fails_iff:
  "aborted (fst (Blockchain_commitBlock (newEmulatorBlockchain rt) s)) =
     (queuedTransactions s \<noteq> [])
   \<and> (queuedTransactions s \<noteq> [] \<longrightarrow>
        Blockchain_commitBlock (newEmulatorBlockchain rt) s = (Inl CommitBeforeExecution, s))
   \<and> (queuedTransactions s = [] \<longrightarrow>
        Blockchain_commitBlock (newEmulatorBlockchain rt) s =
          (Inr (), s\<lparr>committedBlocks := committedBlocks s @ [executedTransactions s],
                      executedTransactions := []\<rparr>))"
  by (simp add: emulator_commitBlock_def aborted_def)

theorem commitBlock_fails_iff_witness:
  "fst (Blockchain_commitBlock (newEmulatorBlockchain countingRuntime) (genesis 0)) = Inr ()
   \<and> queuedTransactions afterAdd = [transactionWith ''a'']
   \<and> Blockchain_commitBlock (newEmulatorBlockchain countingRuntime) afterAdd =
       (Inl CommitBeforeExecution, afterAdd)
   \<and> queuedTransactions
        (snd (Blockchain_executeNextTransaction (newEmulatorBlockchain countingRuntime) afterAdd))
       = []
   \<and> fst (Blockchain_commitBlock (newEmulatorBlockchain countingRuntime)
        (snd (Blockchain_executeNextTransaction (newEmulatorBlockchain countingRuntime)
           afterAdd))) = Inr ()"
proof -
  have q: "queuedTransactions afterAdd = [transactionWith ''a'']"
    by (simp add: afterAdd_def emulator_commitBlock_def genesis_def)
  have q0: "queuedTransactions (genesis (0::nat)) = []"
    by (simp add: genesis_def)
  have q2: "queuedTransactions
        (snd (Blockchain_executeNextTransaction (newEmulatorBlockchain countingRuntime) afterAdd))
       = []"
    by (simp add: emulator_next_Cons [OF q] afterExecuting_queued)
  from q q0 q2
    commitBlock_fails_iff [of countingRuntime "genesis 0"]
    commitBlock_fails_iff [of countingRuntime afterAdd]
    commitBlock_fails_iff [of countingRuntime
      "snd (Blockchain_executeNextTransaction (newEmulatorBlockchain countingRuntime) afterAdd)"]
  show ?thesis by simp
qed

section \<open>\<open>executeTransactions\<close>\<close>

lemma executeTransactions_returns:
  assumes "fst (Blockchain_executeTransactions self txs s) = Inr results"
  shows "\<exists>u s1 s2. addTransactions_loop self txs s = (Inr u, s1)
           \<and> executeNext_loop self txs [] s1 = (Inr results, s2)"
  using assms
  by (auto simp add: Blockchain_executeTransactions_def split: prod.splits sum.splits)

lemma executeTransactions_recording_emulator:
  "Blockchain_executeTransactions (recordingBlockchain (newEmulatorBlockchain rt)) txs (log, s) =
     (fst (Blockchain_executeTransactions (newEmulatorBlockchain rt) txs s),
      (log @ map AddTransactionCall txs @ replicate (length txs) ExecuteNextTransactionCall
         @ [CommitBlockCall],
       snd (Blockchain_executeTransactions (newEmulatorBlockchain rt) txs s)))"
proof -
  define q where "q = take (length txs) (queuedTransactions s @ txs)"
  define rest where "rest = drop (length txs) (queuedTransactions s @ txs)"
  let ?s1 = "s\<lparr>queuedTransactions := queuedTransactions s @ txs\<rparr>"
  have split: "queuedTransactions ?s1 = q @ rest"
    unfolding q_def rest_def by (simp del: take_append drop_append)
  have len: "length txs = length q"
    unfolding q_def by simp
  have a: "addTransactions_loop (newEmulatorBlockchain rt) txs s = (Inr (), ?s1)"
    by (rule addTransactions_loop_emulator)
  have b: "fst (executeNext_loop (newEmulatorBlockchain rt) txs [] ?s1) =
             Inr ([] @ resultsOf rt (ledger ?s1) q)"
    by (simp only: executeNext_loop_emulator [OF split len] fst_conv)
  show ?thesis
    by (rule executeTransactions_recording [OF a b])
qed

lemma countingRuntime_run:
  "runTransaction countingRuntime (transactionWith c) l =
     (if c = ''panic'' then (Some (Error ''some error''), [], l)
      else (None, [CompositeValue c []], Suc l))"
  by (simp add: countingRuntime_def transactionWith_def)

text \<open>
  C5, as amended. \<open>executeTransactions(txs)\<close> first enqueues every transaction of
  \<open>txs\<close>, then calls \<open>executeNextTransaction\<close> once for each, every call executing
  the oldest enqueued transaction, and calls \<open>commitBlock\<close> exactly once, at the end. On
  the emulator the backend receives, for every list and every state, the calls
  \<open>addTransaction\<close> for each element of \<open>txs\<close> in order, then \<open>length txs\<close> calls
  of \<open>executeNextTransaction\<close>, then one \<open>commitBlock\<close>. When no unexecuted
  transaction is pending before the call, the transactions executed are those of \<open>txs\<close>
  in their order and the one block committed ends with them; when one is pending, the
  executions serve the oldest entries of the queue and the commit at the end fails. For
  every backend, a call that returns has made exactly the calls above.
\<close>

theorem executeTransactions_order:
  "Blockchain_executeTransactions (recordingBlockchain (newEmulatorBlockchain rt)) txs (log, s) =
     (fst (Blockchain_executeTransactions (newEmulatorBlockchain rt) txs s),
      (log @ map AddTransactionCall txs @ replicate (length txs) ExecuteNextTransactionCall
         @ [CommitBlockCall],
       snd (Blockchain_executeTransactions (newEmulatorBlockchain rt) txs s)))
   \<and> (queuedTransactions s = [] \<longrightarrow>
        Blockchain_executeTransactions (newEmulatorBlockchain rt) txs s =
          (Inr (resultsOf rt (ledger s) txs),
           (afterExecuting rt txs [] s)
             \<lparr>committedBlocks := committedBlocks s @ [executedTransactions s @ txs],
              executedTransactions := []\<rparr>))
   \<and> (queuedTransactions s \<noteq> [] \<longrightarrow>
        Blockchain_executeTransactions (newEmulatorBlockchain rt) txs s =
          (Inl CommitBeforeExecution,
           afterExecuting rt (take (length txs) (queuedTransactions s @ txs))
             (drop (length txs) (queuedTransactions s @ txs)) s))
   \<and> (fst (Blockchain_executeTransactions self txs s0) = Inr results \<longrightarrow>
        Blockchain_executeTransactions (recordingBlockchain self) txs (log0, s0) =
          (Inr results,
           (log0 @ map AddTransactionCall txs
              @ replicate (length txs) ExecuteNextTransactionCall @ [CommitBlockCall],
            snd (Blockchain_executeTransactions self txs s0))))"
proof (intro conjI impI)
  show "Blockchain_executeTransactions (recordingBlockchain (newEmulatorBlockchain rt)) txs (log, s) =
     (fst (Blockchain_executeTransactions (newEmulatorBlockchain rt) txs s),
      (log @ map AddTransactionCall txs @ replicate (length txs) ExecuteNextTransactionCall
         @ [CommitBlockCall],
       snd (Blockchain_executeTransactions (newEmulatorBlockchain rt) txs s)))"
    by (rule executeTransactions_recording_emulator)
next
  assume "queuedTransactions s = []"
  then show "Blockchain_executeTransactions (newEmulatorBlockchain rt) txs s =
          (Inr (resultsOf rt (ledger s) txs),
           (afterExecuting rt txs [] s)
             \<lparr>committedBlocks := committedBlocks s @ [executedTransactions s @ txs],
              executedTransactions := []\<rparr>)"
    by (rule executeTransactions_emulator_empty_queue)
next
  assume "queuedTransactions s \<noteq> []"
  then show "Blockchain_executeTransactions (newEmulatorBlockchain rt) txs s =
          (Inl CommitBeforeExecution,
           afterExecuting rt (take (length txs) (queuedTransactions s @ txs))
             (drop (length txs) (queuedTransactions s @ txs)) s)"
    by (rule executeTransactions_emulator_pending)
next
  assume ok: "fst (Blockchain_executeTransactions self txs s0) = Inr results"
  from executeTransactions_returns [OF ok]
  obtain u s1 s2 where a: "addTransactions_loop self txs s0 = (Inr u, s1)"
    and b: "executeNext_loop self txs [] s1 = (Inr results, s2)"
    by blast
  from b have b': "fst (executeNext_loop self txs [] s1) = Inr results" by simp
  from executeTransactions_recording [OF a b', of log0] ok
  show "Blockchain_executeTransactions (recordingBlockchain self) txs (log0, s0) =
          (Inr results,
           (log0 @ map AddTransactionCall txs
              @ replicate (length txs) ExecuteNextTransactionCall @ [CommitBlockCall],
            snd (Blockchain_executeTransactions self txs s0)))"
    by simp
qed

theorem executeTransactions_order_witness:
  "Blockchain_executeTransactions (newEmulatorBlockchain countingRuntime)
       [transactionWith ''a'', transactionWith ''panic'', transactionWith ''b''] (genesis 0) =
     (Inr [TransactionResult succeeded None,
           TransactionResult failed (Some (Error ''some error'')),
           TransactionResult succeeded None],
      \<lparr>ledger = 2, executedTransactions = [], queuedTransactions = [],
       committedBlocks =
         [[transactionWith ''a'', transactionWith ''panic'', transactionWith ''b'']],
       emittedEvents = [CompositeValue ''a'' [], CompositeValue ''b'' []]\<rparr>)
   \<and> fst (snd (Blockchain_executeTransactions
        (recordingBlockchain (newEmulatorBlockchain countingRuntime))
        [transactionWith ''a'', transactionWith ''panic'', transactionWith ''b'']
        ([], genesis 0))) =
       [AddTransactionCall (transactionWith ''a''), AddTransactionCall (transactionWith ''panic''),
        AddTransactionCall (transactionWith ''b''),
        ExecuteNextTransactionCall, ExecuteNextTransactionCall, ExecuteNextTransactionCall,
        CommitBlockCall]
   \<and> Blockchain_executeTransactions (newEmulatorBlockchain countingRuntime)
        [transactionWith ''b''] afterAdd =
       (Inl CommitBeforeExecution,
        \<lparr>ledger = 1, executedTransactions = [transactionWith ''a''],
         queuedTransactions = [transactionWith ''b''],
         committedBlocks = [[]], emittedEvents = [CompositeValue ''a'' []]\<rparr>)"
proof -
  let ?g = "genesis (0::nat)"
  let ?txs = "[transactionWith ''a'', transactionWith ''panic'', transactionWith ''b'']"
  note batch = executeTransactions_order [where rt = countingRuntime and s = "?g"
      and log = "[]" and txs = ?txs and self = "newEmulatorBlockchain countingRuntime"
      and ?s0.0 = "?g" and results = "[]" and ?log0.0 = "[]"]
  note pending = executeTransactions_order [where rt = countingRuntime and s = afterAdd
      and log = "[]" and txs = "[transactionWith ''b'']"
      and self = "newEmulatorBlockchain countingRuntime"
      and ?s0.0 = "?g" and results = "[]" and ?log0.0 = "[]"]
  have q0: "queuedTransactions ?g = []"
    by (simp add: genesis_def)
  have s1: "afterAdd = \<lparr>ledger = 0, executedTransactions = [],
       queuedTransactions = [transactionWith ''a''], committedBlocks = [[]], emittedEvents = []\<rparr>"
    by (simp add: afterAdd_def emulator_commitBlock_def genesis_def)
  have q1: "queuedTransactions afterAdd \<noteq> []"
    by (simp add: s1)
  have a: "Blockchain_executeTransactions (newEmulatorBlockchain countingRuntime) ?txs ?g =
          (Inr (resultsOf countingRuntime (ledger ?g) ?txs),
           (afterExecuting countingRuntime ?txs [] ?g)
             \<lparr>committedBlocks := committedBlocks ?g
                 @ [executedTransactions ?g @ ?txs],
              executedTransactions := []\<rparr>)"
    by (rule batch [THEN conjunct2, THEN conjunct1, rule_format, OF q0])
  have b: "fst (snd (Blockchain_executeTransactions
        (recordingBlockchain (newEmulatorBlockchain countingRuntime)) ?txs ([], genesis 0))) =
       [] @ map AddTransactionCall ?txs @ replicate (length ?txs) ExecuteNextTransactionCall
         @ [CommitBlockCall]"
    using batch [THEN conjunct1] by simp
  have c: "Blockchain_executeTransactions (newEmulatorBlockchain countingRuntime)
        [transactionWith ''b''] afterAdd =
          (Inl CommitBeforeExecution,
           afterExecuting countingRuntime
             (take (length [transactionWith ''b''])
                (queuedTransactions afterAdd @ [transactionWith ''b'']))
             (drop (length [transactionWith ''b''])
                (queuedTransactions afterAdd @ [transactionWith ''b''])) afterAdd)"
    by (rule pending [THEN conjunct2, THEN conjunct2, THEN conjunct1, rule_format, OF q1])
  show ?thesis
    unfolding a b c
    by (simp add: s1 afterExecuting_def countingRuntime_run genesis_def transactionResultOf_def
        numeral_3_eq_3)
qed

text \<open>
  C5, as first stated, without the condition on the pending block, fails: with \<open>a\<close> added and not
  executed, \<open>executeTransactions([b])\<close> executes \<open>a\<close>, leaves \<open>b\<close> queued and
  unexecuted, and its commit aborts without committing a block.
\<close>

theorem executeTransactions_order_counterexample:
  "queuedTransactions afterAdd = [transactionWith ''a'']
   \<and> fst (Blockchain_executeTransactions (newEmulatorBlockchain countingRuntime)
        [transactionWith ''b''] afterAdd) = Inl CommitBeforeExecution
   \<and> executedTransactions (snd (Blockchain_executeTransactions
        (newEmulatorBlockchain countingRuntime) [transactionWith ''b''] afterAdd)) =
       [transactionWith ''a'']
   \<and> queuedTransactions (snd (Blockchain_executeTransactions
        (newEmulatorBlockchain countingRuntime) [transactionWith ''b''] afterAdd)) =
       [transactionWith ''b'']
   \<and> transactionWith ''b'' \<notin> set (executedTransactions (snd (Blockchain_executeTransactions
        (newEmulatorBlockchain countingRuntime) [transactionWith ''b''] afterAdd)))
   \<and> committedBlocks (snd (Blockchain_executeTransactions
        (newEmulatorBlockchain countingRuntime) [transactionWith ''b''] afterAdd)) =
       committedBlocks afterAdd"
proof -
  have s1: "afterAdd = \<lparr>ledger = 0, executedTransactions = [],
       queuedTransactions = [transactionWith ''a''], committedBlocks = [[]], emittedEvents = []\<rparr>"
    by (simp add: afterAdd_def emulator_commitBlock_def genesis_def)
  have q1: "queuedTransactions afterAdd \<noteq> []"
    by (simp add: s1)
  have ne: "transactionWith ''b'' \<noteq> transactionWith ''a''"
    by (simp add: transactionWith_def)
  show ?thesis
    by (simp only: executeTransactions_emulator_pending [OF q1])
      (simp add: s1 afterExecuting_def ne)
qed

lemma resultsOf_length [simp]: "length (resultsOf rt l txs) = length txs"
  by (induction txs arbitrary: l) simp_all

lemma resultsOf_nth:
  "i < length txs \<Longrightarrow>
   resultsOf rt l txs ! i =
     transactionResultOf (fst (runTransaction rt (txs ! i) (ledgerAfter rt l (take i txs))))"
proof (induction txs arbitrary: l i)
  case Nil
  then show ?case by simp
next
  case (Cons tx txs)
  show ?case
  proof (cases i)
    case 0
    then show ?thesis by simp
  next
    case (Suc j)
    with Cons.prems have "j < length txs" by simp
    from Cons.IH [OF this] Suc show ?thesis by simp
  qed
qed

lemma executeTransactions_emulator_returns:
  assumes "fst (Blockchain_executeTransactions (newEmulatorBlockchain rt) txs s) = Inr results"
  shows "queuedTransactions s = [] \<and> results = resultsOf rt (ledger s) txs"
proof (cases "queuedTransactions s = []")
  case True
  with assms executeTransactions_emulator_empty_queue [OF True, of rt txs]
  show ?thesis by simp
next
  case False
  with assms executeTransactions_emulator_pending [OF False, of rt txs]
  show ?thesis by simp
qed

text \<open>
  C10. The array \<open>executeTransactions(txs)\<close> returns has the length of \<open>txs\<close>, for
  every backend; on the emulator its \<open>i\<close>-th element is the result of executing the
  \<open>i\<close>-th transaction of \<open>txs\<close>, on the ledger the transactions before it left.
\<close>

theorem executeTransactions_results:
  "(fst (Blockchain_executeTransactions self txs s0) = Inr results0 \<longrightarrow>
      length results0 = length txs)
   \<and> (fst (Blockchain_executeTransactions (newEmulatorBlockchain rt) txs s) = Inr results \<longrightarrow>
        length results = length txs
        \<and> (\<forall>i<length txs.
              results ! i =
                transactionResultOf
                  (fst (runTransaction rt (txs ! i) (ledgerAfter rt (ledger s) (take i txs))))))"
proof (intro conjI impI)
  assume "fst (Blockchain_executeTransactions self txs s0) = Inr results0"
  from executeTransactions_returns [OF this]
  obtain u s1 s2 where "executeNext_loop self txs [] s1 = (Inr results0, s2)"
    by blast
  from executeNext_loop_length [OF this] show "length results0 = length txs" by simp
next
  assume ok: "fst (Blockchain_executeTransactions (newEmulatorBlockchain rt) txs s) = Inr results"
  from executeTransactions_emulator_returns [OF ok]
  have r: "results = resultsOf rt (ledger s) txs" by simp
  then show "length results = length txs" by simp
  show "\<forall>i<length txs.
              results ! i =
                transactionResultOf
                  (fst (runTransaction rt (txs ! i) (ledgerAfter rt (ledger s) (take i txs))))"
    by (simp add: r resultsOf_nth)
qed

theorem executeTransactions_results_witness:
  "fst (Blockchain_executeTransactions (newEmulatorBlockchain countingRuntime)
       [transactionWith ''a'', transactionWith ''panic'', transactionWith ''b''] (genesis 0)) =
     Inr [TransactionResult succeeded None,
          TransactionResult failed (Some (Error ''some error'')),
          TransactionResult succeeded None]
   \<and> length [TransactionResult succeeded None,
          TransactionResult failed (Some (Error ''some error'')),
          TransactionResult succeeded None] =
       length [transactionWith ''a'', transactionWith ''panic'', transactionWith ''b'']
   \<and> [TransactionResult succeeded None,
          TransactionResult failed (Some (Error ''some error'')),
          TransactionResult succeeded None] ! 1 =
       transactionResultOf (fst (runTransaction countingRuntime (transactionWith ''panic'')
         (ledgerAfter countingRuntime 0 [transactionWith ''a''])))"
proof -
  let ?g = "genesis (0::nat)"
  let ?txs = "[transactionWith ''a'', transactionWith ''panic'', transactionWith ''b'']"
  let ?rs = "[TransactionResult succeeded None,
          TransactionResult failed (Some (Error ''some error'')),
          TransactionResult succeeded None]"
  have q0: "queuedTransactions ?g = []" by (simp add: genesis_def)
  have run: "fst (Blockchain_executeTransactions (newEmulatorBlockchain countingRuntime) ?txs ?g) =
      Inr ?rs"
    by (simp only: executeTransactions_emulator_empty_queue [OF q0])
      (simp add: countingRuntime_run genesis_def transactionResultOf_def)
  note T = executeTransactions_results [where rt = countingRuntime and txs = ?txs and s = ?g
      and results = ?rs and self = "newEmulatorBlockchain countingRuntime" and ?s0.0 = ?g
      and results0 = ?rs]
  from T [THEN conjunct2, rule_format, OF run]
  have len: "length ?rs = length ?txs"
    and nth: "\<forall>i<length ?txs. ?rs ! i =
        transactionResultOf (fst (runTransaction countingRuntime (?txs ! i)
          (ledgerAfter countingRuntime (ledger ?g) (take i ?txs))))"
    by blast+
  have "(1::nat) < length ?txs" by simp
  with nth have "?rs ! 1 =
        transactionResultOf (fst (runTransaction countingRuntime (?txs ! 1)
          (ledgerAfter countingRuntime (ledger ?g) (take 1 ?txs))))"
    by blast
  then have "?rs ! 1 =
       transactionResultOf (fst (runTransaction countingRuntime (transactionWith ''panic'')
         (ledgerAfter countingRuntime 0 [transactionWith ''a''])))"
    by (simp add: genesis_def)
  with run len show ?thesis by simp
qed

section \<open>The force-unwrap\<close>

lemma emulator_commit_panic:
  "fst (emulator_commitBlock s) \<noteq> Inl ForceUnwrapNil"
  by (simp add: emulator_commitBlock_def)

lemma executeTransaction_emulator_no_trap:
  "fst (Blockchain_executeTransaction (newEmulatorBlockchain rt) tx s) \<noteq> Inl ForceUnwrapNil"
proof (cases "queuedTransactions s @ [tx]")
  case Nil
  then show ?thesis by simp
next
  case (Cons first rest)
  then show ?thesis
    using emulator_commit_panic [of "afterExecuting rt [first] rest s"]
    by (auto simp add: executeTransaction_emulator split: prod.splits sum.splits)
qed

lemma executeTransactions_emulator_no_trap:
  "fst (Blockchain_executeTransactions (newEmulatorBlockchain rt) txs s) \<noteq> Inl ForceUnwrapNil"
proof (cases "queuedTransactions s = []")
  case True
  then show ?thesis by (simp add: executeTransactions_emulator_empty_queue)
next
  case False
  then show ?thesis by (simp add: executeTransactions_emulator_pending)
qed

lemma stateAfter_Nil [simp]: "stateAfter s [] = s"
  by (simp add: stateAfter_def)

lemma stateAfter_Cons [simp]: "stateAfter s ((x, s') # run) = stateAfter s' run"
  by (simp add: stateAfter_def)

lemma callsAdd_loop:
  "callsAdd self s adds \<Longrightarrow>
   addTransactions_loop self (map fst adds) s = (Inr (), stateAfter s adds)"
  by (induction self s adds rule: callsAdd.induct) simp_all

lemma callsNext_loop:
  "callsNext self s steps \<Longrightarrow> length ts = length steps \<Longrightarrow>
   executeNext_loop self ts acc s = (Inr (acc @ map fst steps), stateAfter s steps)"
proof (induction self s steps arbitrary: ts acc rule: callsNext.induct)
  case (1 self s)
  then show ?case by simp
next
  case (2 self s r s' rest)
  then obtain t ts' where ts: "ts = t # ts'" and len: "length ts' = length rest"
    by (cases ts) auto
  from "2.prems" have step: "Blockchain_executeNextTransaction self s = (Inr (Some r), s')"
    and more: "callsNext self s' rest" by simp_all
  from "2.IH" [OF more len, of "acc @ [r]"] step show ?case
    by (simp add: ts)
qed

lemma callsNext_loop_nil:
  "callsNext self s steps \<Longrightarrow> length steps < length ts \<Longrightarrow>
   Blockchain_executeNextTransaction self (stateAfter s steps) = (Inr None, s2) \<Longrightarrow>
   executeNext_loop self ts acc s = (Inl ForceUnwrapNil, s2)"
proof (induction self s steps arbitrary: ts acc rule: callsNext.induct)
  case (1 self s)
  then obtain t ts' where "ts = t # ts'" by (cases ts) auto
  with "1.prems" show ?case by simp
next
  case (2 self s r s' rest)
  then obtain t ts' where ts: "ts = t # ts'" and len: "length rest < length ts'"
    by (cases ts) auto
  from "2.prems" have step: "Blockchain_executeNextTransaction self s = (Inr (Some r), s')"
    and more: "callsNext self s' rest"
    and nil: "Blockchain_executeNextTransaction self (stateAfter s' rest) = (Inr None, s2)"
    by simp_all
  from "2.IH" [OF more len nil, of "acc @ [r]"] step show ?case
    by (simp add: ts)
qed

lemma executeTransactions_unwrap_nil:
  assumes "callsAdd self s0 adds"
    and "callsNext self (stateAfter s0 adds) steps"
    and "length steps < length adds"
    and "Blockchain_executeNextTransaction self (stateAfter (stateAfter s0 adds) steps) =
           (Inr None, s2)"
  shows "Blockchain_executeTransactions self (map fst adds) s0 = (Inl ForceUnwrapNil, s2)"
proof -
  have len: "length steps < length (map fst adds)" using assms(3) by simp
  show ?thesis
    by (simp add: Blockchain_executeTransactions_def callsAdd_loop [OF assms(1)]
        callsNext_loop_nil [OF assms(2) len assms(4)])
qed

lemma executeTransactions_unwrap_ok:
  assumes "callsAdd self s0 adds"
    and "callsNext self (stateAfter s0 adds) steps"
    and "length steps = length adds"
  shows "Blockchain_executeTransactions self (map fst adds) s0 =
     (case Blockchain_commitBlock self (stateAfter (stateAfter s0 adds) steps) of
        (Inl p, s3) \<Rightarrow> (Inl p, s3)
      | (Inr v, s3) \<Rightarrow> (Inr (map fst steps), s3))"
proof -
  have len: "length (map fst adds) = length steps" using assms(3) by simp
  show ?thesis
    by (simp add: Blockchain_executeTransactions_def callsAdd_loop [OF assms(1)]
        callsNext_loop [OF assms(2) len])
qed

text \<open>
  C9. \<open>executeTransaction\<close> and \<open>executeTransactions\<close> force-unwrap the optional
  result of \<open>executeNextTransaction()\<close>. On the emulator, where \<open>addTransaction\<close>
  enqueues, neither function ever aborts at the unwrap. For every backend: when
  \<open>executeNextTransaction\<close> returns a result after the transaction was added, the unwrap
  of \<open>executeTransaction\<close> yields it and the function goes on to commit; when every one
  of the calls \<open>executeTransactions\<close> makes returns a result, no unwrap aborts and the
  function goes on to commit and returns those results in order. When the call of
  \<open>executeTransaction\<close>, or any one of the calls of \<open>executeTransactions\<close> (the
  first, or one after any number of calls that returned a result), returns \<open>nil\<close>, the
  function aborts at the unwrap, in the state the backend was left in, and returns no
  result.
\<close>

theorem force_unwrap:
  "fst (Blockchain_executeTransaction (newEmulatorBlockchain rt) tx s) \<noteq> Inl ForceUnwrapNil
   \<and> fst (Blockchain_executeTransactions (newEmulatorBlockchain rt) txs s) \<noteq> Inl ForceUnwrapNil
   \<and> (Blockchain_addTransaction self tx s0 = (Inr u, s1) \<longrightarrow>
        Blockchain_executeNextTransaction self s1 = (Inr (Some r), s2) \<longrightarrow>
        Blockchain_executeTransaction self tx s0 =
          (case Blockchain_commitBlock self s2 of
             (Inl p, s3) \<Rightarrow> (Inl p, s3)
           | (Inr v, s3) \<Rightarrow> (Inr r, s3)))
   \<and> (Blockchain_addTransaction self tx s0 = (Inr u, s1) \<longrightarrow>
        Blockchain_executeNextTransaction self s1 = (Inr None, s2) \<longrightarrow>
        Blockchain_executeTransaction self tx s0 = (Inl ForceUnwrapNil, s2))
   \<and> (callsAdd self s0 adds \<longrightarrow>
        callsNext self (stateAfter s0 adds) steps \<longrightarrow>
        length steps = length adds \<longrightarrow>
        Blockchain_executeTransactions self (map fst adds) s0 =
          (case Blockchain_commitBlock self (stateAfter (stateAfter s0 adds) steps) of
             (Inl p, s3) \<Rightarrow> (Inl p, s3)
           | (Inr v, s3) \<Rightarrow> (Inr (map fst steps), s3)))
   \<and> (callsAdd self s0 adds \<longrightarrow>
        callsNext self (stateAfter s0 adds) steps \<longrightarrow>
        length steps < length adds \<longrightarrow>
        Blockchain_executeNextTransaction self (stateAfter (stateAfter s0 adds) steps) =
          (Inr None, s2) \<longrightarrow>
        Blockchain_executeTransactions self (map fst adds) s0 = (Inl ForceUnwrapNil, s2))"
proof (intro conjI impI)
  show "fst (Blockchain_executeTransaction (newEmulatorBlockchain rt) tx s) \<noteq> Inl ForceUnwrapNil"
    by (rule executeTransaction_emulator_no_trap)
  show "fst (Blockchain_executeTransactions (newEmulatorBlockchain rt) txs s) \<noteq> Inl ForceUnwrapNil"
    by (rule executeTransactions_emulator_no_trap)
next
  assume "Blockchain_addTransaction self tx s0 = (Inr u, s1)"
    and "Blockchain_executeNextTransaction self s1 = (Inr (Some r), s2)"
  then show "Blockchain_executeTransaction self tx s0 =
          (case Blockchain_commitBlock self s2 of
             (Inl p, s3) \<Rightarrow> (Inl p, s3)
           | (Inr v, s3) \<Rightarrow> (Inr r, s3))"
    by (simp add: Blockchain_executeTransaction_def)
next
  assume "Blockchain_addTransaction self tx s0 = (Inr u, s1)"
    and "Blockchain_executeNextTransaction self s1 = (Inr None, s2)"
  then show "Blockchain_executeTransaction self tx s0 = (Inl ForceUnwrapNil, s2)"
    by (simp add: Blockchain_executeTransaction_def)
next
  assume "callsAdd self s0 adds" and "callsNext self (stateAfter s0 adds) steps"
    and "length steps = length adds"
  then show "Blockchain_executeTransactions self (map fst adds) s0 =
          (case Blockchain_commitBlock self (stateAfter (stateAfter s0 adds) steps) of
             (Inl p, s3) \<Rightarrow> (Inl p, s3)
           | (Inr v, s3) \<Rightarrow> (Inr (map fst steps), s3))"
    by (rule executeTransactions_unwrap_ok)
next
  assume "callsAdd self s0 adds" and "callsNext self (stateAfter s0 adds) steps"
    and "length steps < length adds"
    and "Blockchain_executeNextTransaction self (stateAfter (stateAfter s0 adds) steps) =
          (Inr None, s2)"
  then show "Blockchain_executeTransactions self (map fst adds) s0 = (Inl ForceUnwrapNil, s2)"
    by (rule executeTransactions_unwrap_nil)
qed

theorem force_unwrap_witness:
  "Blockchain_executeTransaction \<lparr>backend = droppingBackend countingRuntime\<rparr>
       (transactionWith ''a'') (genesis 0) = (Inl ForceUnwrapNil, genesis 0)
   \<and> Blockchain_executeTransactions \<lparr>backend = keepOneBackend countingRuntime\<rparr>
       [transactionWith ''a'', transactionWith ''b''] (genesis 0) =
       (Inl ForceUnwrapNil,
        \<lparr>ledger = 1, executedTransactions = [transactionWith ''a''], queuedTransactions = [],
         committedBlocks = [], emittedEvents = [CompositeValue ''a'' []]\<rparr>)
   \<and> Blockchain_executeTransactions \<lparr>backend = keepOneBackend countingRuntime\<rparr>
       [transactionWith ''a''] (genesis 0) =
       (Inr [TransactionResult succeeded None],
        \<lparr>ledger = 1, executedTransactions = [], queuedTransactions = [],
         committedBlocks = [[transactionWith ''a'']],
         emittedEvents = [CompositeValue ''a'' []]\<rparr>)
   \<and> fst (Blockchain_executeTransaction (newEmulatorBlockchain countingRuntime)
       (transactionWith ''a'') (genesis 0)) = Inr (TransactionResult succeeded None)"
proof -
  let ?g = "genesis (0::nat)"
  let ?a = "transactionWith ''a''"
  let ?b = "transactionWith ''b''"
  let ?drop = "\<lparr>backend = droppingBackend countingRuntime\<rparr>"
  let ?keep = "\<lparr>backend = keepOneBackend countingRuntime\<rparr>"
  let ?s1 = "\<lparr>ledger = 0::nat, executedTransactions = [], queuedTransactions = [?a],
      committedBlocks = [], emittedEvents = []\<rparr>"
  let ?s2 = "\<lparr>ledger = 1::nat, executedTransactions = [?a], queuedTransactions = [],
      committedBlocks = [], emittedEvents = [CompositeValue ''a'' []]\<rparr>"
  let ?s3 = "\<lparr>ledger = 1::nat, executedTransactions = [], queuedTransactions = [],
      committedBlocks = [[?a]], emittedEvents = [CompositeValue ''a'' []]\<rparr>"
  have add: "Blockchain_addTransaction ?drop ?a ?g = (Inr (), ?g)"
    by (simp add: Blockchain_addTransaction_def droppingBackend_def)
  have nil: "Blockchain_executeNextTransaction ?drop ?g = (Inr None, ?g)"
    by (simp add: Blockchain_executeNextTransaction_def droppingBackend_def emulatorBackend_def
        emulator_executeNextTransaction_def genesis_def)
  have keep_a: "Blockchain_addTransaction ?keep ?a ?g = (Inr (), ?s1)"
    by (simp add: Blockchain_addTransaction_def keepOneBackend_def emulator_addTransaction_def
        genesis_def)
  have keep_b: "Blockchain_addTransaction ?keep ?b ?s1 = (Inr (), ?s1)"
    by (simp add: Blockchain_addTransaction_def keepOneBackend_def)
  have next1: "Blockchain_executeNextTransaction ?keep ?s1 =
      (Inr (Some (TransactionResult succeeded None)), ?s2)"
    by (simp add: Blockchain_executeNextTransaction_def keepOneBackend_def emulatorBackend_def
        emulator_executeNextTransaction_def countingRuntime_run transactionResultOf_def)
  have next2: "Blockchain_executeNextTransaction ?keep ?s2 = (Inr None, ?s2)"
    by (simp add: Blockchain_executeNextTransaction_def keepOneBackend_def emulatorBackend_def
        emulator_executeNextTransaction_def)
  have commit: "Blockchain_commitBlock ?keep ?s2 = (Inr (), ?s3)"
    by (simp add: Blockchain_commitBlock_def keepOneBackend_def emulatorBackend_def
        emulator_commitBlock_def)
  have adds2: "callsAdd ?keep ?g [(?a, ?s1), (?b, ?s1)]"
    by (simp add: keep_a keep_b)
  have adds1: "callsAdd ?keep ?g [(?a, ?s1)]"
    by (simp add: keep_a)
  have steps2: "callsNext ?keep (stateAfter ?g [(?a, ?s1), (?b, ?s1)])
      [(TransactionResult succeeded None, ?s2)]"
    by (simp add: stateAfter_def next1)
  have steps1: "callsNext ?keep (stateAfter ?g [(?a, ?s1)])
      [(TransactionResult succeeded None, ?s2)]"
    by (simp add: stateAfter_def next1)
  have nil2: "Blockchain_executeNextTransaction ?keep
      (stateAfter (stateAfter ?g [(?a, ?s1), (?b, ?s1)])
         [(TransactionResult succeeded None, ?s2)]) = (Inr None, ?s2)"
    by (simp only: stateAfter_Cons stateAfter_Nil next2)
  note single = force_unwrap [where self = ?drop and tx = ?a and ?s0.0 = ?g and u = "()"
      and ?s1.0 = ?g and ?s2.0 = ?g and r = "TransactionResult succeeded None"
      and rt = countingRuntime and s = ?g and txs = "[]" and adds = "[]" and steps = "[]"]
  note trap = force_unwrap [where self = ?keep and tx = ?a and ?s0.0 = ?g and u = "()"
      and ?s1.0 = ?s1 and ?s2.0 = ?s2 and r = "TransactionResult succeeded None"
      and rt = countingRuntime and s = ?g and txs = "[]"
      and adds = "[(?a, ?s1), (?b, ?s1)]"
      and steps = "[(TransactionResult succeeded None, ?s2)]"]
  note through = force_unwrap [where self = ?keep and tx = ?a and ?s0.0 = ?g and u = "()"
      and ?s1.0 = ?s1 and ?s2.0 = ?s2 and r = "TransactionResult succeeded None"
      and rt = countingRuntime and s = ?g and txs = "[]"
      and adds = "[(?a, ?s1)]"
      and steps = "[(TransactionResult succeeded None, ?s2)]"]
  have a: "Blockchain_executeTransaction ?drop ?a ?g = (Inl ForceUnwrapNil, ?g)"
    by (rule single [THEN conjunct2, THEN conjunct2, THEN conjunct2, THEN conjunct1,
          rule_format, OF add nil])
  have "Blockchain_executeTransactions ?keep (map fst [(?a, ?s1), (?b, ?s1)]) ?g =
      (Inl ForceUnwrapNil, ?s2)"
    by (rule trap [THEN conjunct2, THEN conjunct2, THEN conjunct2, THEN conjunct2,
          THEN conjunct2, rule_format, OF adds2 steps2 _ nil2]) simp
  then have b: "Blockchain_executeTransactions ?keep [?a, ?b] ?g = (Inl ForceUnwrapNil, ?s2)"
    by simp
  have "Blockchain_executeTransactions ?keep (map fst [(?a, ?s1)]) ?g =
      (case Blockchain_commitBlock ?keep
              (stateAfter (stateAfter ?g [(?a, ?s1)])
                 [(TransactionResult succeeded None, ?s2)]) of
         (Inl p, s3) \<Rightarrow> (Inl p, s3)
       | (Inr v, s3) \<Rightarrow> (Inr (map fst [(TransactionResult succeeded None, ?s2)]), s3))"
    by (rule through [THEN conjunct2, THEN conjunct2, THEN conjunct2, THEN conjunct2,
          THEN conjunct1, rule_format, OF adds1 steps1]) simp
  then have c: "Blockchain_executeTransactions ?keep [?a] ?g =
      (Inr [TransactionResult succeeded None], ?s3)"
    by (simp only: stateAfter_Cons stateAfter_Nil commit) simp
  have d: "fst (Blockchain_executeTransaction (newEmulatorBlockchain countingRuntime) ?a ?g) =
      Inr (TransactionResult succeeded None)"
    by (simp add: Blockchain_executeTransaction_def emulator_unfold)
  from a b c d show ?thesis by simp
qed

section \<open>Results\<close>

lemma scriptResultOf_well_formed: "wellFormedScriptResult (scriptResultOf out)"
  by (cases out)
    (simp_all add: wellFormedScriptResult_def scriptSuccess_def scriptFailure_def
      scriptResultOf_def)

lemma transactionResultOf_well_formed: "wellFormedTransactionResult (transactionResultOf out)"
  by (cases out)
    (simp_all add: wellFormedTransactionResult_def transactionSuccess_def
      transactionFailure_def transactionResultOf_def)

lemma resultsOf_well_formed: "list_all wellFormedTransactionResult (resultsOf rt l txs)"
  by (induction txs arbitrary: l) (simp_all add: transactionResultOf_well_formed)

lemma emulator_script [simp]:
  "Blockchain_executeScript (newEmulatorBlockchain rt) script args s =
     (Inr (scriptResultOf (runScript rt script args (ledger s))), s)"
  by (simp add: Blockchain_executeScript_def newEmulatorBlockchain_def emulatorBackend_def
      emulator_executeScript_def)

lemma emulator_next_well_formed:
  "fst (emulator_executeNextTransaction rt s) = Inr (Some r) \<Longrightarrow>
   wellFormedTransactionResult r"
  by (cases "queuedTransactions s")
    (auto simp add: emulator_executeNextTransaction_def transactionResultOf_well_formed
      split: prod.splits)

lemma executeTransaction_emulator_well_formed:
  assumes "fst (Blockchain_executeTransaction (newEmulatorBlockchain rt) tx s) = Inr r"
  shows "wellFormedTransactionResult r"
proof (cases "queuedTransactions s @ [tx]")
  case Nil
  then show ?thesis by simp
next
  case (Cons first rest)
  with assms show ?thesis
    by (auto simp add: executeTransaction_emulator transactionResultOf_well_formed
        split: prod.splits sum.splits)
qed

text \<open>
  C6. Every \<open>ScriptResult\<close> and every \<open>TransactionResult\<close> the emulator hands out
  through \<open>executeScript\<close>, \<open>executeNextTransaction\<close>, \<open>executeTransaction\<close> and
  \<open>executeTransactions\<close> has exactly one of the two shapes: succeeded without an error,
  or failed with an error; the return value of a script that failed is \<open>nil\<close>.
\<close>

theorem results_well_formed:
  "(\<exists>r. Blockchain_executeScript (newEmulatorBlockchain rt) script args s = (Inr r, s)
         \<and> wellFormedScriptResult r
         \<and> (ScriptResult.status r = failed \<longrightarrow> ScriptResult.returnValue r = None))
   \<and> (fst (Blockchain_executeNextTransaction (newEmulatorBlockchain rt) s) = Inr (Some r1) \<longrightarrow>
        wellFormedTransactionResult r1)
   \<and> (fst (Blockchain_executeTransaction (newEmulatorBlockchain rt) tx s) = Inr r2 \<longrightarrow>
        wellFormedTransactionResult r2)
   \<and> (fst (Blockchain_executeTransactions (newEmulatorBlockchain rt) txs s) = Inr rs \<longrightarrow>
        list_all wellFormedTransactionResult rs)"
proof (intro conjI impI)
  have "wellFormedScriptResult (scriptResultOf (runScript rt script args (ledger s)))"
    by (rule scriptResultOf_well_formed)
  then show "\<exists>r. Blockchain_executeScript (newEmulatorBlockchain rt) script args s = (Inr r, s)
         \<and> wellFormedScriptResult r
         \<and> (ScriptResult.status r = failed \<longrightarrow> ScriptResult.returnValue r = None)"
    by (simp add: wellFormedScriptResult_def)
next
  assume "fst (Blockchain_executeNextTransaction (newEmulatorBlockchain rt) s) = Inr (Some r1)"
  then show "wellFormedTransactionResult r1"
    by (simp add: emulator_next_well_formed)
next
  assume "fst (Blockchain_executeTransaction (newEmulatorBlockchain rt) tx s) = Inr r2"
  then show "wellFormedTransactionResult r2"
    by (rule executeTransaction_emulator_well_formed)
next
  assume "fst (Blockchain_executeTransactions (newEmulatorBlockchain rt) txs s) = Inr rs"
  from executeTransactions_emulator_returns [OF this]
  show "list_all wellFormedTransactionResult rs"
    by (simp add: resultsOf_well_formed)
qed

theorem results_well_formed_witness:
  "Blockchain_executeScript (newEmulatorBlockchain countingRuntime) ''panic'' [] (genesis 0) =
     (Inr (ScriptResult failed None (Some (Error ''some error''))), genesis 0)
   \<and> wellFormedScriptResult (ScriptResult failed None (Some (Error ''some error'')))
   \<and> fst (Blockchain_executeTransaction (newEmulatorBlockchain countingRuntime)
        (transactionWith ''panic'') (genesis 0)) =
       Inr (TransactionResult failed (Some (Error ''some error'')))
   \<and> wellFormedTransactionResult (TransactionResult failed (Some (Error ''some error'')))
   \<and> \<not> wellFormedScriptResult (ScriptResult succeeded None (Some (Error ''some error'')))
   \<and> \<not> wellFormedScriptResult (ScriptResult failed (Some (IntValue 1)) (Some (Error ''e'')))
   \<and> \<not> wellFormedTransactionResult (TransactionResult failed None)"
proof -
  let ?g = "genesis (0::nat)"
  let ?emu = "newEmulatorBlockchain countingRuntime"
  have script: "Blockchain_executeScript ?emu ''panic'' [] ?g =
     (Inr (ScriptResult failed None (Some (Error ''some error''))), ?g)"
    by (simp add: countingRuntime_def scriptResultOf_def)
  have tx: "fst (Blockchain_executeTransaction ?emu (transactionWith ''panic'') ?g) =
       Inr (TransactionResult failed (Some (Error ''some error'')))"
    by (simp add: Blockchain_executeTransaction_def emulator_unfold)
  note T = results_well_formed [where rt = countingRuntime and script = "''panic''"
      and args = "[]" and s = ?g and tx = "transactionWith ''panic''"
      and ?r2.0 = "TransactionResult failed (Some (Error ''some error''))"
      and ?r1.0 = "TransactionResult failed None" and txs = "[]" and rs = "[]"]
  from T [THEN conjunct1] script
  have a: "wellFormedScriptResult (ScriptResult failed None (Some (Error ''some error'')))"
    by auto
  from T [THEN conjunct2, THEN conjunct2, THEN conjunct1, rule_format, OF tx]
  have b: "wellFormedTransactionResult (TransactionResult failed (Some (Error ''some error'')))" .
  have c: "\<not> wellFormedScriptResult (ScriptResult succeeded None (Some (Error ''some error'')))"
    "\<not> wellFormedScriptResult (ScriptResult failed (Some (IntValue 1)) (Some (Error ''e'')))"
    "\<not> wellFormedTransactionResult (TransactionResult failed None)"
    by (simp_all add: wellFormedScriptResult_def scriptSuccess_def scriptFailure_def
        wellFormedTransactionResult_def transactionSuccess_def transactionFailure_def)
  from script tx a b c show ?thesis by simp
qed

section \<open>Assertions\<close>

text \<open>
  C7. \<open>Test.assertEqual\<close> fails for every pair of values whose types differ, also
  when they stand for the same number, as \<open>Int64(100)\<close> and \<open>UInt64(100)\<close> do; it
  fails if and only if the two typed values are not equal.
\<close>

theorem assertEqual_typed:
  "(getType expected \<noteq> getType actual \<longrightarrow> aborted (assertEqual expected actual))
   \<and> aborted (assertEqual expected actual) = (expected \<noteq> actual)"
  by (auto simp add: assertEqual_def aborted_def)

theorem assertEqual_typed_witness:
  "numericValue (Int64Value 100) = numericValue (UInt64Value 100)
   \<and> getType (Int64Value 100) \<noteq> getType (UInt64Value 100)
   \<and> aborted (assertEqual (Int64Value 100) (UInt64Value 100))
   \<and> assertEqual (Int64Value 100) (Int64Value 100) = Inr ()"
  using assertEqual_typed [of "Int64Value 100" "UInt64Value 100"]
    assertEqual_typed [of "Int64Value 100" "Int64Value 100"]
  by (simp add: assertEqual_def aborted_def)

section \<open>Events\<close>

lemma emulator_events_all [simp]:
  "Blockchain_events (newEmulatorBlockchain rt) s = (Inr (emittedEvents s), s)"
  by (simp add: Blockchain_events_def newEmulatorBlockchain_def emulatorBackend_def
      emulator_events_def)

lemma emulator_events_of_type [simp]:
  "Blockchain_eventsOfType (newEmulatorBlockchain rt) T s =
     (Inr (filter (\<lambda>e. getType e = T) (emittedEvents s)), s)"
  by (simp add: Blockchain_eventsOfType_def newEmulatorBlockchain_def emulatorBackend_def
      emulator_events_def)

text \<open>
  C8. On the emulator, for every type \<open>T\<close> and every state, \<open>eventsOfType(T)\<close>
  returns the elements of \<open>events()\<close> whose type is \<open>T\<close>, in the same order: a
  subsequence of \<open>events()\<close>. Neither call changes the state.
\<close>

theorem eventsOfType_filters_events:
  "Blockchain_events (newEmulatorBlockchain rt) s = (Inr (emittedEvents s), s)
   \<and> Blockchain_eventsOfType (newEmulatorBlockchain rt) T s =
       (Inr (filter (\<lambda>e. getType e = T) (emittedEvents s)), s)
   \<and> subseq (filter (\<lambda>e. getType e = T) (emittedEvents s)) (emittedEvents s)"
  by simp

theorem eventsOfType_filters_events_witness:
  "fst (Blockchain_events (newEmulatorBlockchain countingRuntime)
     (snd (Blockchain_executeTransactions (newEmulatorBlockchain countingRuntime)
        [transactionWith ''a'', transactionWith ''b'', transactionWith ''a''] (genesis 0)))) =
     Inr [CompositeValue ''a'' [], CompositeValue ''b'' [], CompositeValue ''a'' []]
   \<and> fst (Blockchain_eventsOfType (newEmulatorBlockchain countingRuntime) (CompositeType ''a'')
     (snd (Blockchain_executeTransactions (newEmulatorBlockchain countingRuntime)
        [transactionWith ''a'', transactionWith ''b'', transactionWith ''a''] (genesis 0)))) =
     Inr [CompositeValue ''a'' [], CompositeValue ''a'' []]"
proof -
  let ?g = "genesis (0::nat)"
  let ?txs = "[transactionWith ''a'', transactionWith ''b'', transactionWith ''a'']"
  let ?s = "snd (Blockchain_executeTransactions (newEmulatorBlockchain countingRuntime) ?txs ?g)"
  have q0: "queuedTransactions ?g = []" by (simp add: genesis_def)
  have ev: "emittedEvents ?s =
      [CompositeValue ''a'' [], CompositeValue ''b'' [], CompositeValue ''a'' []]"
    by (simp only: executeTransactions_emulator_empty_queue [OF q0])
      (simp add: afterExecuting_def countingRuntime_run genesis_def)
  from eventsOfType_filters_events [of countingRuntime ?s "CompositeType ''a''"] ev
  show ?thesis by simp
qed

end
